theory Spec2Isabelle
  imports Complex_Main "HOL-Library.AList"
begin

section \<open>Python values and dictionaries\<close>

text \<open>
  The registry is Python 2 code (\<^verbatim>\<open>from __future__ import unicode_literals\<close>, a
  \<^verbatim>\<open>map\<close> whose result the HTTP layer measures with \<^verbatim>\<open>len\<close>). Its parameters, filters and
  rows are dictionaries from names to dynamically typed values. A dictionary is an
  association list: \<open>map_of\<close> reads a key, \<open>AList.update\<close> is \<^verbatim>\<open>d[k] = v\<close> (in place when
  the key is there, appended otherwise), \<open>AList.delete\<close> is \<^verbatim>\<open>del d[k]\<close>. The order of the
  keys of a Python 2 dictionary is arbitrary; the list keeps the order of insertion, and
  no theorem about every input depends on it.
  A float is kept as the rational it denotes: the code stores and compares clock readings
  and does no arithmetic on them.
\<close>

datatype val = VNone | VBool bool | VInt int | VFloat rat | VStr string

type_synonym dict = "(string \<times> val) list"

text \<open>Python's truth value of an object, as \<^verbatim>\<open>bool(x)\<close> and \<^verbatim>\<open>if x\<close> read it.\<close>

fun py_bool :: "val \<Rightarrow> bool" where
  "py_bool VNone = False"
| "py_bool (VBool b) = b"
| "py_bool (VInt n) = (n \<noteq> 0)"
| "py_bool (VFloat r) = (r \<noteq> 0)"
| "py_bool (VStr s) = (s \<noteq> [])"

text \<open>
  Python 2 orders values of different built-in types: \<^verbatim>\<open>None\<close> is below everything,
  numbers (booleans included) are below strings, numbers compare by value and strings
  by code points.
\<close>

fun str_lt :: "string \<Rightarrow> string \<Rightarrow> bool" where
  "str_lt [] [] = False"
| "str_lt [] (y # ys) = True"
| "str_lt (x # xs) [] = False"
| "str_lt (x # xs) (y # ys) =
     ((of_char x :: nat) < of_char y \<or> (x = y \<and> str_lt xs ys))"

fun num_of :: "val \<Rightarrow> rat" where
  "num_of (VBool b) = (if b then 1 else 0)"
| "num_of (VInt n) = of_int n"
| "num_of (VFloat r) = r"
| "num_of v = 0"

fun py_rank :: "val \<Rightarrow> nat" where
  "py_rank VNone = 0"
| "py_rank (VStr s) = 2"
| "py_rank v = 1"

definition py_lt :: "val \<Rightarrow> val \<Rightarrow> bool" where
  "py_lt a b =
     (if py_rank a \<noteq> py_rank b then py_rank a < py_rank b
      else (case (a, b) of
              (VStr x, VStr y) \<Rightarrow> str_lt x y
            | (VNone, VNone) \<Rightarrow> False
            | _ \<Rightarrow> num_of a < num_of b))"

text \<open>\<^verbatim>\<open>min(a, b)\<close>: the first argument unless the second is smaller.\<close>

definition py_min :: "val \<Rightarrow> val \<Rightarrow> val" where
  "py_min a b = (if py_lt b a then b else a)"

text \<open>\<^verbatim>\<open>d.update(other)\<close>.\<close>

definition dict_update :: "dict \<Rightarrow> dict \<Rightarrow> dict" where
  "dict_update d other = fold (\<lambda>kv acc. AList.update (fst kv) (snd kv) acc) other d"

text \<open>\<^verbatim>\<open>', '.join(names)\<close>.\<close>

fun join_comma :: "string list \<Rightarrow> string" where
  "join_comma [] = []"
| "join_comma [x] = x"
| "join_comma (x # y # ys) = x @ '', '' @ join_comma (y # ys)"

text \<open>\<^verbatim>\<open>s.startswith(prefix)\<close>.\<close>

definition startswith :: "string \<Rightarrow> string \<Rightarrow> bool" where
  "startswith s pre = (take (length pre) s = pre)"

section \<open>Errors\<close>

text \<open>
  \<open>ContentException\<close> is the manager's own exception class; the message says which
  check raised it. The other constructors are Python's built-in exceptions and the
  backend's error.
\<close>

datatype content_msg =
    AlreadyExists val
  | DoesNotExist int
  | InvalidPath val
  | NotUnderRoot string
  | NoFileAt string
  | InvalidFilter string

datatype error =
    ContentException content_msg
  | ValueError val
  | KeyError string
  | TypeError
  | AttributeError
  | OSError
  | DatabaseError

section \<open>The environment and the state\<close>

text \<open>
  What a call reads from outside the registry: the configured root, the file system
  (\<^verbatim>\<open>os.path.getsize\<close>, \<^verbatim>\<open>os.path.isfile\<close>), the clock (\<^verbatim>\<open>time.time()\<close>, the reading at each
  tick), Python's \<^verbatim>\<open>re.compile\<close> (\<open>None\<close> is \<^verbatim>\<open>re.error\<close>; a compiled pattern is its
  \<^verbatim>\<open>search(item) is not None\<close> predicate), and the filters whose meaning the
  specification leaves open (see \<open>filter_holds\<close>).
\<close>

datatype node = RegularFile nat | OtherNode nat

record env =
  root_path :: string
  fs :: "string \<Rightarrow> node option"
  clock :: "nat \<Rightarrow> rat"
  re_compile :: "string \<Rightarrow> (string \<Rightarrow> bool) option"
  other_filter :: "string \<Rightarrow> val \<Rightarrow> dict \<Rightarrow> bool"

record action_record =
  file_id :: int
  client_name :: val
  action :: string
  action_params :: string
  timestamp :: val

text \<open>
  The database: table \<^verbatim>\<open>content\<close> (a row is the dictionary \<^verbatim>\<open>row_to_dict\<close> gives),
  table \<^verbatim>\<open>history\<close>, and the number of clock readings taken so far.
\<close>

record state =
  content :: "dict list"
  history :: "action_record list"
  ticks :: nat

definition time_time :: "env \<Rightarrow> state \<Rightarrow> val \<times> state" where
  "time_time e s = (VFloat (clock e (ticks s)), s\<lparr>ticks := Suc (ticks s)\<rparr>)"

definition getsize :: "env \<Rightarrow> val \<Rightarrow> error + nat" where
  "getsize e path =
     (case path of
        VStr p \<Rightarrow> (case fs e p of
                     None \<Rightarrow> Inl OSError
                   | Some (RegularFile n) \<Rightarrow> Inr n
                   | Some (OtherNode n) \<Rightarrow> Inr n)
      | _ \<Rightarrow> Inl TypeError)"

definition isfile :: "env \<Rightarrow> string \<Rightarrow> bool" where
  "isfile e p = (case fs e p of Some (RegularFile n) \<Rightarrow> True | _ \<Rightarrow> False)"

section \<open>content.py\<close>

definition COLS :: "string list" where
  "COLS = [''id'', ''path'', ''size'', ''uploaded'', ''modified'', ''category'',
           ''expiration'', ''serve_path'', ''alive'']"

definition strip_extra :: "dict \<Rightarrow> string list \<Rightarrow> dict" where
  "strip_extra data valid_keys = filter (\<lambda>kv. fst kv \<in> set valid_keys) data"

definition process_content_data :: "dict \<Rightarrow> dict" where
  "process_content_data data = strip_extra data COLS"

text \<open>
  Modelled from the spec: the migrations that create the tables are not among the
  sources. The specification gives table \<^verbatim>\<open>content\<close> the columns of the entry (\<open>COLS\<close>),
  with \<^verbatim>\<open>id\<close> an integer the backend assigns, and table \<^verbatim>\<open>history\<close> the fields of an
  audit record, with no foreign key. The backend is SQLite (the source reads
  \<^verbatim>\<open>last_insert_rowid()\<close>): a bound Python boolean is stored as 0 or 1; \<open>sql_eq\<close> is SQL's
  \<^verbatim>\<open>=\<close>, never true of NULL, by value on numbers, by text on strings; a column the INSERT
  leaves out is NULL; an id left out (or NULL) is one more than the largest in use; an
  id in use, or one that is not an integer, is refused. No other constraint is assumed.
\<close>

fun adapt :: "val \<Rightarrow> val" where
  "adapt (VBool b) = VInt (if b then 1 else 0)"
| "adapt v = v"

fun sql_eq :: "val \<Rightarrow> val \<Rightarrow> bool" where
  "sql_eq (VInt a) (VInt b) = (a = b)"
| "sql_eq (VInt a) (VFloat b) = (of_int a = b)"
| "sql_eq (VFloat a) (VInt b) = (a = of_int b)"
| "sql_eq (VFloat a) (VFloat b) = (a = b)"
| "sql_eq (VStr a) (VStr b) = (a = b)"
| "sql_eq a b = False"

definition col :: "dict \<Rightarrow> string \<Rightarrow> val" where
  "col row k = (case map_of row k of None \<Rightarrow> VNone | Some v \<Rightarrow> v)"

definition row_id :: "dict \<Rightarrow> int option" where
  "row_id row = (case map_of row ''id'' of Some (VInt n) \<Rightarrow> Some n | _ \<Rightarrow> None)"

definition row_ids :: "dict list \<Rightarrow> int list" where
  "row_ids rows = List.map_filter row_id rows"

definition next_rowid :: "int list \<Rightarrow> int" where
  "next_rowid ids = (case ids of [] \<Rightarrow> 1 | i # js \<Rightarrow> fold max js i + 1)"

definition mk_row :: "int \<Rightarrow> dict \<Rightarrow> dict" where
  "mk_row n data =
     map (\<lambda>c. (c, if c = ''id'' then VInt n
                  else (case map_of data c of None \<Rightarrow> VNone | Some v \<Rightarrow> adapt v))) COLS"

definition insert_content :: "dict list \<Rightarrow> dict \<Rightarrow> error + (int \<times> dict list)" where
  "insert_content rows data =
     (case (case map_of data ''id'' of
              None \<Rightarrow> Inr (next_rowid (row_ids rows))
            | Some v \<Rightarrow> (case adapt v of
                          VNone \<Rightarrow> Inr (next_rowid (row_ids rows))
                        | VInt n \<Rightarrow> if n \<in> set (row_ids rows) then Inl DatabaseError else Inr n
                        | _ \<Rightarrow> Inl DatabaseError)) of
        Inl err \<Rightarrow> Inl err
      | Inr n \<Rightarrow> Inr (n, rows @ [mk_row n data]))"

definition add_content :: "state \<Rightarrow> dict \<Rightarrow> (error + int) \<times> state" where
  "add_content s data =
     (case insert_content (content s) (process_content_data data) of
        Inl err \<Rightarrow> (Inl err, s)
      | Inr (last_id, rows) \<Rightarrow> (Inr last_id, s\<lparr>content := rows\<rparr>))"

text \<open>\<^verbatim>\<open>UPDATE content SET k = :k, ... WHERE id = :id\<close>, one \<^verbatim>\<open>k\<close> for each key of the data.\<close>

definition set_cols :: "dict \<Rightarrow> dict \<Rightarrow> dict" where
  "set_cols row data =
     map (\<lambda>kv. (fst kv, case map_of data (fst kv) of None \<Rightarrow> snd kv | Some v \<Rightarrow> adapt v)) row"

definition update_content :: "state \<Rightarrow> dict \<Rightarrow> (error + unit) \<times> state" where
  "update_content s data =
     (let data' = process_content_data data in
      case map_of data' ''id'' of
        None \<Rightarrow> (Inl DatabaseError, s)
      | Some idv \<Rightarrow>
          (Inr (), s\<lparr>content :=
             map (\<lambda>row. if sql_eq (col row ''id'') (adapt idv) then set_cols row data' else row)
               (content s)\<rparr>))"

section \<open>utils/databases.py\<close>

text \<open>
  \<open>regexp_operator\<close> returns its value and the records it logs. Every exception of the
  body (\<^verbatim>\<open>re.error\<close>, the \<^verbatim>\<open>TypeError\<close> of an argument that is not a string) is caught by
  \<^verbatim>\<open>except Exception\<close>; the function then falls off its end, which returns \<^verbatim>\<open>None\<close>.
\<close>

definition regexp_log :: string where
  "regexp_log = ''Error while using REGEXP operator''"

definition regexp_operator ::
  "(string \<Rightarrow> (string \<Rightarrow> bool) option) \<Rightarrow> val \<Rightarrow> val \<Rightarrow> val \<times> string list" where
  "regexp_operator rc expr item =
     (case expr of
        VStr p \<Rightarrow>
          (case rc p of
             None \<Rightarrow> (VNone, [regexp_log])
           | Some rx \<Rightarrow>
               (case item of
                  VStr t \<Rightarrow> (VBool (rx t), [])
                | _ \<Rightarrow> (VNone, [regexp_log])))
      | _ \<Rightarrow> (VNone, [regexp_log]))"

definition SQLITE_BACKEND :: string where
  "SQLITE_BACKEND = ''sqlite''"

text \<open>The functions a connection has registered, by SQL name, with their arity.\<close>

datatype sql_function = Regexp_operator

definition patch_connection ::
  "string \<Rightarrow> (string \<times> nat \<times> sql_function) list \<Rightarrow> (string \<times> nat \<times> sql_function) list" where
  "patch_connection backend conn =
     (if backend = SQLITE_BACKEND then (''REGEXP'', 2, Regexp_operator) # conn else conn)"

section \<open>The filter compiler\<close>

definition VALID_FILTERS :: "string list" where
  "VALID_FILTERS = [''id'', ''path'', ''since'', ''count'', ''category'', ''alive'',
                    ''aired'', ''serve_path'']"

text \<open>
  Modelled from the spec: module \<^verbatim>\<open>filters\<close> (the decorator \<^verbatim>\<open>to_filters\<close> and the
  filter objects \<^verbatim>\<open>get_content\<close> applies) is not among the sources. The specification
  makes the filters a closed set of predicates and an optional row limit, rejects an
  unknown key or a malformed value with \<open>InvalidFilter\<close>, evaluates \<^verbatim>\<open>serve_path\<close> with the
  backend's pattern-match predicate (on SQLite \<^verbatim>\<open>serve_path REGEXP ?\<close>, which calls
  \<open>regexp_operator\<close> with the bound value as \<^verbatim>\<open>expr\<close>), and selects by \<^verbatim>\<open>id\<close> and by
  \<^verbatim>\<open>alive\<close> (an existence check is a lookup with \<^verbatim>\<open>alive = true\<close> forced in). Alive
  entries are the default scope of a read: a read hides the entries that are not alive
  unless \<^verbatim>\<open>alive\<close> is supplied as a filter (section 8 and the glossary). It says
  nothing of what \<^verbatim>\<open>path\<close>, \<^verbatim>\<open>since\<close>, \<^verbatim>\<open>category\<close> and \<^verbatim>\<open>aired\<close> select: they are the
  environment's \<open>other_filter\<close>. Rows come in table order. A negative limit is SQLite's
  "no limit".
\<close>

definition filter_holds :: "env \<Rightarrow> string \<Rightarrow> val \<Rightarrow> dict \<Rightarrow> bool" where
  "filter_holds e k v row =
     (if k = ''id'' \<or> k = ''alive'' then sql_eq (col row k) (adapt v)
      else if k = ''serve_path''
        then fst (regexp_operator (re_compile e) (adapt v) (col row ''serve_path'')) = VBool True
      else other_filter e k v row)"

definition row_selected :: "env \<Rightarrow> dict \<Rightarrow> dict \<Rightarrow> bool" where
  "row_selected e filters row =
     (list_all (\<lambda>kv. fst kv = ''count'' \<or> filter_holds e (fst kv) (snd kv) row) filters \<and>
      (if map_of filters ''alive'' = None then filter_holds e ''alive'' (VBool True) row
       else True))"

definition apply_limit :: "val \<Rightarrow> dict list \<Rightarrow> error + dict list" where
  "apply_limit c rows =
     (case adapt c of
        VInt n \<Rightarrow> Inr (if n < 0 then rows else take (nat n) rows)
      | _ \<Rightarrow> Inl (ContentException (InvalidFilter ''count'')))"

definition get_content :: "env \<Rightarrow> dict list \<Rightarrow> dict \<Rightarrow> error + dict list" where
  "get_content e rows filters =
     (case filter (\<lambda>k. k \<notin> set VALID_FILTERS) (map fst filters) of
        k # ks \<Rightarrow> Inl (ContentException (InvalidFilter k))
      | [] \<Rightarrow>
          (case map_of filters ''count'' of
             None \<Rightarrow> Inr (filter (row_selected e filters) rows)
           | Some c \<Rightarrow> apply_limit c (filter (row_selected e filters) rows)))"

section \<open>manager.py\<close>

definition DEFAULT_LIST_COUNT :: int where
  "DEFAULT_LIST_COUNT = 100"

definition MAX_LIST_COUNT :: int where
  "MAX_LIST_COUNT = 1000"

definition MODIFY_TRIGGERS :: "string list" where
  "MODIFY_TRIGGERS = [''path'', ''size'', ''category'', ''expiration'', ''serve_path'',
                      ''alive'']"

text \<open>\<open>validate_filters\<close>: the loop over the keys raises at the first one outside the set.\<close>

fun validate_keys :: "string list \<Rightarrow> error + unit" where
  "validate_keys [] = Inr ()"
| "validate_keys (key # ks) =
     (if key \<notin> set VALID_FILTERS then Inl (ContentException (InvalidFilter key))
      else validate_keys ks)"

definition validate_filters :: "dict \<Rightarrow> error + unit" where
  "validate_filters filters = validate_keys (map fst filters)"

text \<open>\<open>_process_entry\<close>: \<^verbatim>\<open>data['alive'] = bool(data['alive'])\<close>.\<close>

definition process_entry :: "dict \<Rightarrow> error + dict" where
  "process_entry data =
     (case map_of data ''alive'' of
        None \<Rightarrow> Inl (KeyError ''alive'')
      | Some a \<Rightarrow> Inr (AList.update ''alive'' (VBool (py_bool a)) data))"

fun process_entries :: "dict list \<Rightarrow> error + dict list" where
  "process_entries [] = Inr []"
| "process_entries (r # rs) =
     (case process_entry r of
        Inl err \<Rightarrow> Inl err
      | Inr d \<Rightarrow> (case process_entries rs of Inl err \<Rightarrow> Inl err | Inr ds \<Rightarrow> Inr (d # ds)))"

definition get_file :: "env \<Rightarrow> state \<Rightarrow> dict \<Rightarrow> error + dict option" where
  "get_file e s kwargs =
     (let filters = AList.update ''count'' (VInt 1) kwargs in
      case validate_filters filters of
        Inl err \<Rightarrow> Inl err
      | Inr u \<Rightarrow>
          (case get_content e (content s) filters of
             Inl err \<Rightarrow> Inl err
           | Inr [] \<Rightarrow> Inr None
           | Inr (f # rest) \<Rightarrow> map_sum id Some (process_entry f)))"

text \<open>\<open>exists\<close>: \<^verbatim>\<open>bool(content)\<close> is false of \<^verbatim>\<open>None\<close> and of an empty dictionary.\<close>

definition exists :: "env \<Rightarrow> state \<Rightarrow> dict \<Rightarrow> error + bool" where
  "exists e s kwargs =
     (let filters = AList.update ''alive'' (VBool True) kwargs in
      case get_file e s filters of
        Inl err \<Rightarrow> Inl err
      | Inr None \<Rightarrow> Inr False
      | Inr (Some d) \<Rightarrow> Inr (d \<noteq> []))"

definition default_filters :: dict where
  "default_filters = [(''count'', VInt DEFAULT_LIST_COUNT)]"

text \<open>
  \<open>validate_list_filters\<close> works on a copy. \<^verbatim>\<open>re.compile\<close> of a value that is not a string
  is a \<^verbatim>\<open>TypeError\<close>, which the \<^verbatim>\<open>except re.error\<close> clause lets through.
\<close>

definition validate_list_filters :: "env \<Rightarrow> dict \<Rightarrow> error + dict" where
  "validate_list_filters e filters =
     (let f1 = (if map_of filters ''serve_path'' \<noteq> None \<or> map_of filters ''since'' \<noteq> None
                then AList.delete ''count'' filters else filters);
          f2 = (case map_of f1 ''count'' of
                  None \<Rightarrow> f1
                | Some c \<Rightarrow> AList.update ''count'' (py_min c (VInt MAX_LIST_COUNT)) f1)
      in case map_of f2 ''serve_path'' of
           None \<Rightarrow> Inr f2
         | Some (VStr p) \<Rightarrow>
             (case re_compile e p of
                None \<Rightarrow> Inl (ValueError (VStr p))
              | Some rx \<Rightarrow> Inr f2)
         | Some v \<Rightarrow> Inl TypeError)"

definition list_files :: "env \<Rightarrow> state \<Rightarrow> dict \<Rightarrow> error + dict list" where
  "list_files e s kwargs =
     (case validate_list_filters e (dict_update default_filters kwargs) of
        Inl err \<Rightarrow> Inl err
      | Inr filters \<Rightarrow>
          (case get_content e (content s) filters of
             Inl err \<Rightarrow> Inl err
           | Inr rows \<Rightarrow> process_entries rows))"

text \<open>
  \<open>_validate_path\<close>: a value that is true and not a string has no \<^verbatim>\<open>startswith\<close>.
\<close>

definition validate_path :: "env \<Rightarrow> val \<Rightarrow> error + unit" where
  "validate_path e path =
     (if \<not> py_bool path then Inl (ContentException (InvalidPath path))
      else (case path of
              VStr p \<Rightarrow>
                if \<not> startswith p (root_path e) then Inl (ContentException (NotUnderRoot p))
                else if \<not> isfile e p then Inl (ContentException (NoFileAt p))
                else Inr ()
            | _ \<Rightarrow> Inl AttributeError))"

definition validate_params :: "env \<Rightarrow> dict \<Rightarrow> error + unit" where
  "validate_params e params =
     (case map_of params ''path'' of None \<Rightarrow> Inr () | Some p \<Rightarrow> validate_path e p)"

text \<open>\<open>ActionRecords.add_action\<close> through \<open>record_action\<close>, whose timestamp is read here.\<close>

definition record_action :: "env \<Rightarrow> state \<Rightarrow> int \<Rightarrow> val \<Rightarrow> string \<Rightarrow> string \<Rightarrow> state" where
  "record_action e s fid name act params =
     (case time_time e s of
        (now, s1) \<Rightarrow>
          s1\<lparr>history := history s1 @
               [\<lparr>file_id = fid, client_name = name, action = act, action_params = params,
                 timestamp = now\<rparr>]\<rparr>)"


text \<open>
  \<open>_add_file\<close>. The chained assignment stores \<^verbatim>\<open>uploaded\<close>, then \<^verbatim>\<open>modified\<close>, from one
  clock reading. The size is that of the \<^verbatim>\<open>path\<close> argument, not of \<^verbatim>\<open>data['path']\<close>.
\<close>

definition priv_add_file :: "env \<Rightarrow> state \<Rightarrow> val \<Rightarrow> dict \<Rightarrow> (error + int) \<times> state" where
  "priv_add_file e s path data =
     (let data1 = AList.update ''alive'' (VBool True) data in
      case time_time e s of
        (now, s1) \<Rightarrow>
          (let data2 = AList.update ''modified'' now (AList.update ''uploaded'' now data1) in
           case getsize e path of
             Inl err \<Rightarrow> (Inl err, s1)
           | Inr n \<Rightarrow> add_content s1 (AList.update ''size'' (VInt (int n)) data2)))"

text \<open>The loop of \<open>_update_file\<close> over \<open>MODIFY_TRIGGERS\<close>: is one of them a key of the data?\<close>

definition has_trigger :: "dict \<Rightarrow> bool" where
  "has_trigger data = list_ex (\<lambda>key. map_of data key \<noteq> None) MODIFY_TRIGGERS"

text \<open>
  \<open>_update_file\<close> writes into the dictionary it is given, which is the caller's
  \<^verbatim>\<open>params\<close>: the dictionary as it leaves is returned with the state.
\<close>

definition priv_update_file :: "env \<Rightarrow> state \<Rightarrow> int \<Rightarrow> dict \<Rightarrow> (error + dict) \<times> state" where
  "priv_update_file e s i data =
     (let data1 = AList.update ''id'' (VInt i) data in
      case (case map_of data1 ''path'' of
              None \<Rightarrow> Inr data1
            | Some path \<Rightarrow> map_sum id (\<lambda>n. AList.update ''size'' (VInt (int n)) data1)
                             (getsize e path)) of
        Inl err \<Rightarrow> (Inl err, s)
      | Inr data2 \<Rightarrow>
          (case (if has_trigger data2
                 then (case time_time e s of
                         (now, s1) \<Rightarrow> (AList.update ''modified'' now data2, s1))
                 else (data2, s)) of
             (data3, s2) \<Rightarrow>
               (case update_content s2 data3 of
                  (Inl err, s3) \<Rightarrow> (Inl err, s3)
                | (Inr u, s3) \<Rightarrow> (Inr data3, s3))))"

definition priv_delete_file :: "env \<Rightarrow> state \<Rightarrow> int \<Rightarrow> (error + unit) \<times> state" where
  "priv_delete_file e s i =
     (case time_time e s of
        (now, s1) \<Rightarrow>
          update_content s1 [(''id'', VInt i), (''alive'', VBool False), (''modified'', now)])"

definition add_file ::
  "env \<Rightarrow> state \<Rightarrow> dict \<Rightarrow> val \<Rightarrow> dict \<Rightarrow> (error + dict option) \<times> state" where
  "add_file e s client path params =
     (case map_of params ''serve_path'' of
        None \<Rightarrow> (Inl (KeyError ''serve_path''), s)
      | Some serve_path \<Rightarrow>
          (case exists e s [(''serve_path'', serve_path)] of
             Inl err \<Rightarrow> (Inl err, s)
           | Inr True \<Rightarrow> (Inl (ContentException (AlreadyExists serve_path)), s)
           | Inr False \<Rightarrow>
               (case validate_params e params of
                  Inl err \<Rightarrow> (Inl err, s)
                | Inr u \<Rightarrow>
                    (case priv_add_file e s path params of
                       (Inl err, s1) \<Rightarrow> (Inl err, s1)
                     | (Inr i, s1) \<Rightarrow>
                         (case map_of client ''name'' of
                            None \<Rightarrow> (Inl (KeyError ''name''), s1)
                          | Some name \<Rightarrow>
                              (let s2 = record_action e s1 i name ''add'' [] in
                               (get_file e s2 [(''id'', VInt i)], s2)))))))"

definition update_file ::
  "env \<Rightarrow> state \<Rightarrow> dict \<Rightarrow> int \<Rightarrow> dict \<Rightarrow> (error + dict option) \<times> state" where
  "update_file e s client i params =
     (case exists e s [(''id'', VInt i)] of
        Inl err \<Rightarrow> (Inl err, s)
      | Inr False \<Rightarrow> (Inl (ContentException (DoesNotExist i)), s)
      | Inr True \<Rightarrow>
          (case validate_params e params of
             Inl err \<Rightarrow> (Inl err, s)
           | Inr u \<Rightarrow>
               (case priv_update_file e s i params of
                  (Inl err, s1) \<Rightarrow> (Inl err, s1)
                | (Inr params', s1) \<Rightarrow>
                    (case map_of client ''name'' of
                       None \<Rightarrow> (Inl (KeyError ''name''), s1)
                     | Some name \<Rightarrow>
                         (let s2 = record_action e s1 i name ''update''
                                     (join_comma (map fst params')) in
                          (get_file e s2 [(''id'', VInt i)], s2))))))"

definition delete_file :: "env \<Rightarrow> state \<Rightarrow> dict \<Rightarrow> int \<Rightarrow> (error + unit) \<times> state" where
  "delete_file e s client i =
     (case exists e s [(''id'', VInt i)] of
        Inl err \<Rightarrow> (Inl err, s)
      | Inr False \<Rightarrow> (Inl (ContentException (DoesNotExist i)), s)
      | Inr True \<Rightarrow>
          (case priv_delete_file e s i of
             (Inl err, s1) \<Rightarrow> (Inl err, s1)
           | (Inr u, s1) \<Rightarrow>
               (case map_of client ''name'' of
                  None \<Rightarrow> (Inl (KeyError ''name''), s1)
                | Some name \<Rightarrow> (Inr (), record_action e s1 i name ''delete'' []))))"

section \<open>api.py\<close>

text \<open>
  The handler of the list route, after authentication and URL decoding: it keeps the
  parameters that are valid filters and turns what \<open>list_files\<close> raises into its answer.
  A \<open>ContentException\<close> and a \<^verbatim>\<open>ValueError\<close> are answered with their message
  (\<open>Failed\<close>, which carries the exception), any other exception with "Unknown Error".
\<close>

definition split_valid_filters :: "dict \<Rightarrow> dict \<times> dict" where
  "split_valid_filters filters =
     (filter (\<lambda>kv. fst kv \<in> set VALID_FILTERS) filters,
      filter (\<lambda>kv. fst kv \<notin> set VALID_FILTERS) filters)"

datatype response = Results "dict list" nat | Failed error | Unknown_Error

definition api_list_files :: "env \<Rightarrow> state \<Rightarrow> dict \<Rightarrow> response" where
  "api_list_files e s params =
     (case list_files e s (fst (split_valid_filters params)) of
        Inr files \<Rightarrow> Results files (length files)
      | Inl (ContentException m) \<Rightarrow> Failed (ContentException m)
      | Inl (ValueError v) \<Rightarrow> Failed (ValueError v)
      | Inl err \<Rightarrow> Unknown_Error)"

section \<open>Well-formed states\<close>

text \<open>
  What the schema and the manager keep true of the database: a row has exactly the
  columns \<open>COLS\<close> and an integer id, no two rows share an id, and an audit record
  belongs to a row of the table.
\<close>

definition wf_row :: "dict \<Rightarrow> bool" where
  "wf_row row = (map fst row = COLS \<and> row_id row \<noteq> None)"

definition wf_state :: "state \<Rightarrow> bool" where
  "wf_state s =
     (list_all wf_row (content s) \<and> distinct (row_ids (content s)) \<and>
      list_all (\<lambda>a. file_id a \<in> set (row_ids (content s))) (history s))"

section \<open>A regular-expression engine for the concrete evaluations\<close>

text \<open>
  The theorems below hold for every \<open>re_compile\<close>. Where a statement is evaluated on
  concrete data, the environment's \<open>re_compile\<close> is \<open>re_lite\<close>: Python's \<^verbatim>\<open>re\<close> on the
  patterns made of literal characters, \<^verbatim>\<open>.\<close> (any character but a newline) and one of
  \<^verbatim>\<open>*\<close>, \<^verbatim>\<open>+\<close>, \<^verbatim>\<open>?\<close> after a character or a dot. A pattern that starts with a quantifier is
  Python's "nothing to repeat" error. A pattern with any other metacharacter, or with
  two quantifiers in a row, is outside this fragment, and \<open>re_lite\<close> answers \<open>None\<close> for it
  as well; no evaluation below uses such a pattern.
\<close>

datatype atom = Lit char | Dot

datatype rep = Once | Star | Plus | Opt

definition quantifier :: "char \<Rightarrow> bool" where
  "quantifier c = (c \<in> set ''*+?'')"

definition other_meta :: "char \<Rightarrow> bool" where
  "other_meta c = (c \<in> set (''^$|()[]{}'' @ [char_of (92 :: nat)]))"

definition atom_of :: "char \<Rightarrow> atom" where
  "atom_of c = (if c = CHR ''.'' then Dot else Lit c)"

definition rep_of :: "char \<Rightarrow> rep" where
  "rep_of c = (if c = CHR ''*'' then Star else if c = CHR ''+'' then Plus else Opt)"

fun parse_pattern :: "string \<Rightarrow> (atom \<times> rep) list option" where
  "parse_pattern [] = Some []"
| "parse_pattern [c] =
     (if quantifier c \<or> other_meta c then None else Some [(atom_of c, Once)])"
| "parse_pattern (c # q # cs) =
     (if quantifier c \<or> other_meta c then None
      else if quantifier q
        then (case cs of
                [] \<Rightarrow> Some [(atom_of c, rep_of q)]
              | d # ds \<Rightarrow> if quantifier d then None
                          else map_option ((#) (atom_of c, rep_of q)) (parse_pattern cs))
      else map_option ((#) (atom_of c, Once)) (parse_pattern (q # cs)))"

fun atom_ok :: "atom \<Rightarrow> char \<Rightarrow> bool" where
  "atom_ok (Lit a) c = (a = c)"
| "atom_ok Dot c = (c \<noteq> char_of (10 :: nat))"

fun match_here :: "(atom \<times> rep) list \<Rightarrow> string \<Rightarrow> bool" where
  "match_here [] t = True"
| "match_here ((a, Once) # items) [] = False"
| "match_here ((a, Once) # items) (c # cs) = (atom_ok a c \<and> match_here items cs)"
| "match_here ((a, Opt) # items) [] = match_here items []"
| "match_here ((a, Opt) # items) (c # cs) =
     (match_here items (c # cs) \<or> (atom_ok a c \<and> match_here items cs))"
| "match_here ((a, Star) # items) [] = match_here items []"
| "match_here ((a, Star) # items) (c # cs) =
     (match_here items (c # cs) \<or> (atom_ok a c \<and> match_here ((a, Star) # items) cs))"
| "match_here ((a, Plus) # items) [] = False"
| "match_here ((a, Plus) # items) (c # cs) =
     (atom_ok a c \<and> match_here ((a, Star) # items) cs)"

fun search :: "(atom \<times> rep) list \<Rightarrow> string \<Rightarrow> bool" where
  "search items [] = match_here items []"
| "search items (c # cs) = (match_here items (c # cs) \<or> search items cs)"

definition re_lite :: "string \<Rightarrow> (string \<Rightarrow> bool) option" where
  "re_lite p = map_option search (parse_pattern p)"

section \<open>The vocabulary of the statements\<close>

text \<open>
  A row has the id \<open>i\<close>, and a row is alive, as the backend compares them: \<open>alive\<close> is
  stored as 1 for true and 0 for false.
\<close>

definition has_id :: "int \<Rightarrow> dict \<Rightarrow> bool" where
  "has_id i row = sql_eq (col row ''id'') (VInt i)"

definition is_alive :: "dict \<Rightarrow> bool" where
  "is_alive row = sql_eq (col row ''alive'') (VInt 1)"

text \<open>
  The serve path of a row is matched by a value read as a pattern: what the
  \<^verbatim>\<open>serve_path\<close> filter selects.
\<close>

definition serve_path_matches :: "env \<Rightarrow> val \<Rightarrow> dict \<Rightarrow> bool" where
  "serve_path_matches e pat row =
     (fst (regexp_operator (re_compile e) (adapt pat) (col row ''serve_path'')) = VBool True)"


text \<open>The dictionary \<open>_add_file\<close> hands to \<open>add_content\<close>.\<close>

definition stamped :: "env \<Rightarrow> state \<Rightarrow> nat \<Rightarrow> dict \<Rightarrow> dict" where
  "stamped e s n data =
     AList.update ''size'' (VInt (int n))
       (AList.update ''modified'' (VFloat (clock e (ticks s)))
         (AList.update ''uploaded'' (VFloat (clock e (ticks s)))
           (AList.update ''alive'' (VBool True) data)))"

text \<open>The dictionary \<open>_delete_file\<close> hands to \<open>update_content\<close>.\<close>

definition deletion :: "env \<Rightarrow> state \<Rightarrow> int \<Rightarrow> dict" where
  "deletion e s i = [(''id'', VInt i), (''alive'', VBool False),
                     (''modified'', VFloat (clock e (ticks s)))]"

section \<open>A concrete registry\<close>

text \<open>
  One file of 42 bytes under the root \<^verbatim>\<open>/srv\<close>, a clock that reads 1000 and one more at
  each reading, and the open filters read as equality on their column.
\<close>

definition env0 :: env where
  "env0 = \<lparr>root_path = ''/srv'',
           fs = (\<lambda>p. if p = ''/srv/a.mp4'' then Some (RegularFile 42) else None),
           clock = (\<lambda>n. 1000 + of_nat n),
           re_compile = re_lite,
           other_filter = (\<lambda>k v row. sql_eq (col row k) (adapt v))\<rparr>"

definition empty_state :: state where
  "empty_state = \<lparr>content = [], history = [], ticks = 0\<rparr>"

definition client0 :: dict where
  "client0 = [(''name'', VStr ''uploader'')]"

definition params0 :: dict where
  "params0 = [(''path'', VStr ''/srv/a.mp4''), (''serve_path'', VStr ''/videos/a''),
              (''session_token'', VStr ''s3cr3t'')]"

text \<open>The registry after one successful \<open>add_file\<close>, and after the entry is deleted.\<close>

definition state_added :: state where
  "state_added = snd (add_file env0 empty_state client0 (VStr ''/srv/a.mp4'') params0)"

definition state_deleted :: state where
  "state_deleted = snd (delete_file env0 state_added client0 1)"


text \<open>
  The entry of \<open>state_added\<close> updated with a category, and with a \<^verbatim>\<open>modified\<close> of the
  client's.
\<close>

definition state_updated :: state where
  "state_updated = snd (update_file env0 state_added client0 1 [(''category'', VStr ''news'')])"

definition state_backdated :: state where
  "state_backdated = snd (update_file env0 state_added client0 1 [(''modified'', VInt 7)])"


text \<open>
  The registry with one entry, served at \<^verbatim>\<open>/videos/abc\<close>, and the registry with one entry,
  served at \<^verbatim>\<open>/videos/a+b\<close>.
\<close>

definition state_abc :: state where
  "state_abc = snd (add_file env0 empty_state client0 (VStr ''/srv/a.mp4'')
                      [(''serve_path'', VStr ''/videos/abc'')])"

definition state_plus :: state where
  "state_plus = snd (add_file env0 empty_state client0 (VStr ''/srv/a.mp4'')
                       [(''serve_path'', VStr ''/videos/a+b'')])"

section \<open>Lemmas on the filters\<close>

lemma validate_keys_ok:
  "set ks \<subseteq> set VALID_FILTERS \<Longrightarrow> validate_keys ks = Inr ()"
  by (induction ks) auto

lemma validate_keys_bad:
  "\<not> set ks \<subseteq> set VALID_FILTERS \<Longrightarrow>
     \<exists>k. k \<in> set ks \<and> k \<notin> set VALID_FILTERS \<and>
         validate_keys ks = Inl (ContentException (InvalidFilter k))"
proof (induction ks)
  case Nil
  then show ?case by simp
next
  case (Cons key ks)
  show ?case
  proof (cases "key \<in> set VALID_FILTERS")
    case True
    with Cons.prems have "\<not> set ks \<subseteq> set VALID_FILTERS" by auto
    from Cons.IH [OF this] obtain k where
      "k \<in> set ks" "k \<notin> set VALID_FILTERS"
      "validate_keys ks = Inl (ContentException (InvalidFilter k))" by blast
    with True show ?thesis by auto
  next
    case False
    then show ?thesis by auto
  qed
qed

section \<open>The closed set of filters\<close>

text \<open>
  Claim C8. \<open>validate_filters\<close> passes a mapping whose keys all belong to
  \<open>VALID_FILTERS\<close>, and fails with the \<open>ContentException\<close> "Invalid filter" (naming a
  key of the mapping outside the set) as soon as one key is outside it: it fails if and
  only if such a key exists.
\<close>

theorem validate_filters_closed_set:
  "(set (map fst filters) \<subseteq> set VALID_FILTERS \<longrightarrow> validate_filters filters = Inr ()) \<and>
   (\<not> set (map fst filters) \<subseteq> set VALID_FILTERS \<longrightarrow>
      (\<exists>k. k \<in> set (map fst filters) \<and> k \<notin> set VALID_FILTERS \<and>
           validate_filters filters = Inl (ContentException (InvalidFilter k))))"
  unfolding validate_filters_def
  using validate_keys_ok [of "map fst filters"] validate_keys_bad [of "map fst filters"]
  by blast

text \<open>Two keys of the set pass; the key \<^verbatim>\<open>owner\<close> is refused.\<close>

theorem validate_filters_closed_set_witness:
  "validate_filters [(''id'', VInt 1), (''serve_path'', VStr ''/videos/a'')] = Inr () \<and>
   (\<exists>k. validate_filters [(''id'', VInt 1), (''owner'', VStr ''x'')] =
          Inl (ContentException (InvalidFilter k)))"
proof -
  have ok: "set (map fst [(''id'', VInt 1), (''serve_path'', VStr ''/videos/a'')])
              \<subseteq> set VALID_FILTERS"
    by (simp add: VALID_FILTERS_def)
  have bad: "\<not> set (map fst [(''id'', VInt 1), (''owner'', VStr ''x'')]) \<subseteq> set VALID_FILTERS"
    by (simp add: VALID_FILTERS_def)
  from ok bad
    validate_filters_closed_set [of "[(''id'', VInt 1), (''serve_path'', VStr ''/videos/a'')]"]
    validate_filters_closed_set [of "[(''id'', VInt 1), (''owner'', VStr ''x'')]"]
  show ?thesis by blast
qed

section \<open>Adding without a serve path\<close>

text \<open>
  Claim C10. When \<^verbatim>\<open>params\<close> has no key \<^verbatim>\<open>serve_path\<close>, \<open>add_file\<close> raises the
  \<^verbatim>\<open>KeyError\<close> of the lookup in its first statement, which is not a
  \<open>ContentException\<close>, and the state it leaves (rows, audit records, clock readings) is
  the state it was given.
\<close>

theorem add_file_without_serve_path:
  "map_of params ''serve_path'' = None \<Longrightarrow>
     add_file e s client path params = (Inl (KeyError ''serve_path''), s) \<and>
     (\<forall>m. fst (add_file e s client path params) \<noteq> Inl (ContentException m))"
  by (simp add: add_file_def)

text \<open>A call with a valid path and no serve path, on the empty registry.\<close>

theorem add_file_without_serve_path_witness:
  "add_file env0 empty_state client0 (VStr ''/srv/a.mp4'') [(''path'', VStr ''/srv/a.mp4'')] =
     (Inl (KeyError ''serve_path''), empty_state)"
  using add_file_without_serve_path [of "[(''path'', VStr ''/srv/a.mp4'')]" env0 empty_state client0 "VStr ''/srv/a.mp4''"]
  by simp

section \<open>The REGEXP predicate\<close>

text \<open>
  Claim C9. On the SQLite backend \<open>patch_connection\<close> registers \<open>regexp_operator\<close> as the
  two-argument function \<^verbatim>\<open>REGEXP\<close>. On two strings it raises nothing: when the expression
  compiles, it returns whether the pattern matches somewhere in the item and logs
  nothing; when it does not compile, it logs the failure and returns \<^verbatim>\<open>None\<close>, whose
  truth value is false.
\<close>

theorem regexp_operator_never_raises:
  "regexp_operator rc (VStr expr) (VStr item) =
     (case rc expr of
        Some rx \<Rightarrow> (VBool (rx item), [])
      | None \<Rightarrow> (VNone, [regexp_log])) \<and>
   py_bool (fst (regexp_operator rc (VStr expr) (VStr item))) =
     (case rc expr of Some rx \<Rightarrow> rx item | None \<Rightarrow> False) \<and>
   (''REGEXP'', 2, Regexp_operator) \<in> set (patch_connection SQLITE_BACKEND conn)"
  by (simp add: regexp_operator_def patch_connection_def split: option.splits)


text \<open>A pattern that matches, one that does not, and one that does not compile.\<close>

theorem regexp_operator_never_raises_witness:
  "regexp_operator re_lite (VStr ''/videos/a'') (VStr ''/videos/ab'') = (VBool True, []) \<and>
   regexp_operator re_lite (VStr ''/videos/b'') (VStr ''/videos/ab'') = (VBool False, []) \<and>
   regexp_operator re_lite (VStr ''*a'') (VStr ''/videos/ab'') = (VNone, [regexp_log])"
proof -
  have a: "(case re_lite ''/videos/a'' of
              Some rx \<Rightarrow> (VBool (rx ''/videos/ab''), [])
            | None \<Rightarrow> (VNone, [regexp_log])) = (VBool True, [])"
    by code_simp
  have b: "(case re_lite ''/videos/b'' of
              Some rx \<Rightarrow> (VBool (rx ''/videos/ab''), [])
            | None \<Rightarrow> (VNone, [regexp_log])) = (VBool False, [])"
    by code_simp
  have c: "(case re_lite ''*a'' of
              Some rx \<Rightarrow> (VBool (rx ''/videos/ab''), [])
            | None \<Rightarrow> (VNone, [regexp_log])) = (VNone, [regexp_log])"
    by code_simp
  from regexp_operator_never_raises [of re_lite "''/videos/a''" "''/videos/ab''"]
    regexp_operator_never_raises [of re_lite "''/videos/b''" "''/videos/ab''"]
    regexp_operator_never_raises [of re_lite "''*a''" "''/videos/ab''"]
  show ?thesis unfolding a b c by blast
qed


section \<open>Lemmas on the manager\<close>

lemma map_sum_id_Inl [simp]: "map_sum id g x = Inl err \<longleftrightarrow> x = Inl err"
  by (cases x) auto

lemma map_sum_id_Inr [simp]: "map_sum id g x = Inr y \<longleftrightarrow> (\<exists>z. x = Inr z \<and> y = g z)"
  by (cases x) auto

lemma get_content_id_alive:
  "get_content e rows [(''id'', VInt i), (''alive'', VBool True), (''count'', VInt 1)] =
     Inr (take 1 (filter (\<lambda>row. has_id i row \<and> is_alive row) rows))"
proof -
  have "row_selected e [(''id'', VInt i), (''alive'', VBool True), (''count'', VInt 1)] =
          (\<lambda>row. has_id i row \<and> is_alive row)"
    by (simp add: fun_eq_iff row_selected_def filter_holds_def has_id_def is_alive_def)
  then show ?thesis
    by (simp add: get_content_def VALID_FILTERS_def apply_limit_def)
qed

lemma process_entry_alive:
  "is_alive row \<Longrightarrow> \<exists>d. process_entry row = Inr d \<and> d \<noteq> []"
  by (auto simp add: is_alive_def col_def process_entry_def split: option.splits)

lemma exists_id:
  "exists e s [(''id'', VInt i)] =
     Inr (list_ex (\<lambda>row. has_id i row \<and> is_alive row) (content s))"
proof (cases "filter (\<lambda>row. has_id i row \<and> is_alive row) (content s)")
  case Nil
  then have "\<not> list_ex (\<lambda>row. has_id i row \<and> is_alive row) (content s)"
    by (simp add: list_ex_iff filter_empty_conv)
  with Nil show ?thesis
    by (simp add: exists_def get_file_def validate_filters_def VALID_FILTERS_def
        get_content_id_alive)
next
  case (Cons r rs)
  then have "r \<in> set (filter (\<lambda>row. has_id i row \<and> is_alive row) (content s))" by simp
  then have r: "r \<in> set (content s)" "has_id i r" "is_alive r" by auto
  then have ex: "list_ex (\<lambda>row. has_id i row \<and> is_alive row) (content s)"
    by (auto simp add: list_ex_iff)
  from process_entry_alive [OF r(3)] obtain d where "process_entry r = Inr d" "d \<noteq> []"
    by blast
  with Cons ex show ?thesis
    by (simp add: exists_def get_file_def validate_filters_def VALID_FILTERS_def
        get_content_id_alive)
qed

lemma validate_path_not_found:
  "validate_path e p \<noteq> Inl (ContentException (DoesNotExist j))"
  by (simp add: validate_path_def split: val.splits)

lemma validate_params_not_found:
  "validate_params e p \<noteq> Inl (ContentException (DoesNotExist j))"
  by (simp add: validate_params_def validate_path_not_found split: option.splits)

lemma getsize_error: "getsize e p = Inl err \<Longrightarrow> err = OSError \<or> err = TypeError"
  by (auto simp add: getsize_def split: val.splits option.splits node.splits)

lemma update_content_error:
  "update_content s d = (Inl err, s') \<Longrightarrow> err = DatabaseError"
  by (auto simp add: update_content_def Let_def split: option.splits)

lemma priv_update_file_error:
  "priv_update_file e s i p = (Inl err, s') \<Longrightarrow>
     err = OSError \<or> err = TypeError \<or> err = DatabaseError"
  unfolding priv_update_file_def Let_def
  by (auto split: option.splits sum.splits prod.splits if_splits
      dest: getsize_error update_content_error)

lemma validate_keys_error:
  "validate_keys ks = Inl err \<Longrightarrow> \<exists>k. err = ContentException (InvalidFilter k)"
  by (induction ks) (auto split: if_splits)

lemma apply_limit_error:
  "apply_limit c rows = Inl err \<Longrightarrow> err = ContentException (InvalidFilter ''count'')"
  by (auto simp add: apply_limit_def split: val.splits)

lemma get_content_error:
  "get_content e rows f = Inl err \<Longrightarrow> \<exists>k. err = ContentException (InvalidFilter k)"
  by (auto simp add: get_content_def split: list.splits option.splits dest: apply_limit_error)

lemma process_entry_error: "process_entry r = Inl err \<Longrightarrow> err = KeyError ''alive''"
  by (auto simp add: process_entry_def split: option.splits)

lemma get_file_error:
  "get_file e s k = Inl err \<Longrightarrow>
     (\<exists>k. err = ContentException (InvalidFilter k)) \<or> err = KeyError ''alive''"
  unfolding get_file_def Let_def validate_filters_def
  by (auto split: sum.splits list.splits
      dest: validate_keys_error get_content_error process_entry_error)

lemma get_file_not_found: "get_file e s k \<noteq> Inl (ContentException (DoesNotExist j))"
  using get_file_error [of e s k "ContentException (DoesNotExist j)"] by auto

lemma update_file_not_found:
  "fst (update_file e s client i params) = Inl (ContentException (DoesNotExist j)) \<longleftrightarrow>
     j = i \<and> \<not> list_ex (\<lambda>row. has_id i row \<and> is_alive row) (content s)"
  unfolding update_file_def exists_id
  by (auto simp add: validate_params_not_found get_file_not_found Let_def
      split: sum.splits prod.splits option.splits bool.splits dest: priv_update_file_error)

lemma priv_delete_file_error:
  "priv_delete_file e s i = (Inl err, s') \<Longrightarrow> err = DatabaseError"
  by (auto simp add: priv_delete_file_def split: prod.splits dest: update_content_error)

lemma delete_file_not_found:
  "fst (delete_file e s client i) = Inl (ContentException (DoesNotExist j)) \<longleftrightarrow>
     j = i \<and> \<not> list_ex (\<lambda>row. has_id i row \<and> is_alive row) (content s)"
  unfolding delete_file_def exists_id
  by (auto simp add: Let_def
      split: sum.splits prod.splits option.splits bool.splits dest: priv_delete_file_error)

section \<open>Deleting\<close>

lemma map_of_set_cols:
  "map_of (set_cols row data) k =
     (case map_of row k of
        None \<Rightarrow> None
      | Some old \<Rightarrow> Some (case map_of data k of None \<Rightarrow> old | Some v \<Rightarrow> adapt v))"
  by (induction row) (auto simp add: set_cols_def)

lemma keys_set_cols: "map fst (set_cols row data) = map fst row"
  by (simp add: set_cols_def comp_def)

lemma col_set_cols:
  "col (set_cols row data) k =
     (case map_of row k of
        None \<Rightarrow> VNone
      | Some old \<Rightarrow> (case map_of data k of None \<Rightarrow> old | Some v \<Rightarrow> adapt v))"
  by (simp add: col_def map_of_set_cols split: option.splits)

lemma has_id_key: "has_id i row \<Longrightarrow> map_of row ''id'' \<noteq> None"
  by (auto simp add: has_id_def col_def split: option.splits)


lemma delete_file_content:
  assumes "delete_file e s client i = (Inr (), s')"
  shows "content s' =
           map (\<lambda>row. if has_id i row then set_cols row (deletion e s i) else row) (content s)"
    and "list_ex (\<lambda>row. has_id i row \<and> is_alive row) (content s)"
  using assms
  unfolding delete_file_def exists_id priv_delete_file_def time_time_def update_content_def
    record_action_def
  by (auto simp add: Let_def process_content_data_def strip_extra_def COLS_def has_id_def
      deletion_def
      split: sum.splits prod.splits option.splits bool.splits if_splits)

lemma deleted_row_not_alive: "\<not> is_alive (set_cols row (deletion e s i))"
  by (simp add: is_alive_def col_set_cols deletion_def split: option.splits)

lemma deleted_row_has_id: "has_id i row \<Longrightarrow> has_id i (set_cols row (deletion e s i))"
  by (frule has_id_key) (auto simp add: has_id_def col_set_cols deletion_def split: option.splits)

lemma delete_file_no_alive:
  assumes "delete_file e s client i = (Inr (), s')"
  shows "\<not> list_ex (\<lambda>row. has_id i row \<and> is_alive row) (content s')"
  unfolding delete_file_content(1) [OF assms]
  by (auto simp add: list_ex_iff deleted_row_not_alive)

lemma delete_file_keeps_row:
  assumes "delete_file e s client i = (Inr (), s')"
  shows "list_ex (has_id i) (content s')"
proof -
  from delete_file_content(2) [OF assms] obtain row where
    row: "row \<in> set (content s)" "has_id i row"
    by (auto simp add: list_ex_iff)
  then have "set_cols row (deletion e s i) \<in> set (content s')"
    unfolding delete_file_content(1) [OF assms] by force
  with row(2) show ?thesis
    by (auto simp add: list_ex_iff dest: deleted_row_has_id)
qed

text \<open>
  Claim C2, amended. \<open>update_file\<close> and \<open>delete_file\<close> raise the \<open>ContentException\<close>
  "does not exist" exactly when no row of the table has the id and is alive: \<open>exists\<close>
  forces \<^verbatim>\<open>alive = True\<close> into the lookup. After a successful \<open>delete_file\<close> the row is
  still in the table, and updating or deleting it raises that exception.
\<close>

theorem not_found_iff_no_alive_entry:
  "(fst (update_file e s client i params) = Inl (ContentException (DoesNotExist i)) \<longleftrightarrow>
      \<not> list_ex (\<lambda>row. has_id i row \<and> is_alive row) (content s)) \<and>
   (fst (delete_file e s client i) = Inl (ContentException (DoesNotExist i)) \<longleftrightarrow>
      \<not> list_ex (\<lambda>row. has_id i row \<and> is_alive row) (content s)) \<and>
   (delete_file e s client i = (Inr (), s') \<longrightarrow>
      list_ex (has_id i) (content s') \<and>
      fst (update_file e s' client' i params') = Inl (ContentException (DoesNotExist i)) \<and>
      fst (delete_file e s' client' i) = Inl (ContentException (DoesNotExist i)))"
  using delete_file_no_alive [of e s client i s'] delete_file_keeps_row [of e s client i s']
  by (simp add: update_file_not_found delete_file_not_found)

text \<open>The entry of \<open>state_added\<close> can be updated; once deleted it is not found.\<close>

theorem not_found_iff_no_alive_entry_witness:
  "fst (update_file env0 state_added client0 1 [(''category'', VStr ''news'')]) \<noteq>
     Inl (ContentException (DoesNotExist 1)) \<and>
   list_ex (has_id 1) (content state_deleted) \<and>
   fst (update_file env0 state_deleted client0 1 [(''category'', VStr ''news'')]) =
     Inl (ContentException (DoesNotExist 1)) \<and>
   fst (delete_file env0 state_deleted client0 1) = Inl (ContentException (DoesNotExist 1))"
proof -
  have alive: "list_ex (\<lambda>row. has_id 1 row \<and> is_alive row) (content state_added)"
    by code_simp
  have deleted: "delete_file env0 state_added client0 1 = (Inr (), state_deleted)"
    by code_simp
  from alive deleted
    not_found_iff_no_alive_entry [of env0 state_added client0 1 "[(''category'', VStr ''news'')]"
      state_deleted client0 "[(''category'', VStr ''news'')]"]
  show ?thesis by simp
qed

text \<open>
  The claim as written fails: a row with id 1 exists in \<open>state_deleted\<close>, and both
  operations raise "does not exist" for it.
\<close>

theorem soft_deleted_entry_is_not_found:
  "list_ex (has_id 1) (content state_deleted) \<and>
   fst (update_file env0 state_deleted client0 1 [(''category'', VStr ''news'')]) =
     Inl (ContentException (DoesNotExist 1)) \<and>
   fst (delete_file env0 state_deleted client0 1) = Inl (ContentException (DoesNotExist 1))"
  by code_simp

lemma wf_row_keys: "wf_row row \<Longrightarrow> k \<in> set COLS \<Longrightarrow> map_of row k \<noteq> None"
proof -
  assume "wf_row row" "k \<in> set COLS"
  then have "k \<in> fst ` set row" by (simp add: wf_row_def flip: set_map)
  then show ?thesis by (simp add: map_of_eq_None_iff)
qed

lemma wf_row_id: "wf_row row \<Longrightarrow> \<exists>n. map_of row ''id'' = Some (VInt n)"
  by (auto simp add: wf_row_def row_id_def split: option.splits val.splits)


















section \<open>Adding\<close>

lemma map_of_strip_extra:
  "map_of (strip_extra data ks) k = (if k \<in> set ks then map_of data k else None)"
  by (induction data) (auto simp add: strip_extra_def)

lemma fold_max_ge: "(i :: int) \<le> fold max js i"
proof (induction js arbitrary: i)
  case Nil
  then show ?case by simp
next
  case (Cons j js)
  have "i \<le> max j i" by simp
  also have "max j i \<le> fold max js (max j i)" by (rule Cons.IH)
  finally show ?case by simp
qed

lemma fold_max_upper: "x \<in> set js \<Longrightarrow> x \<le> fold max js (i :: int)"
proof (induction js arbitrary: i)
  case Nil
  then show ?case by simp
next
  case (Cons j js)
  show ?case
  proof (cases "x = j")
    case True
    have "j \<le> max j i" by simp
    also have "max j i \<le> fold max js (max j i)" by (rule fold_max_ge)
    finally show ?thesis using True by simp
  next
    case False
    with Cons.prems have "x \<in> set js" by simp
    from Cons.IH [OF this] show ?thesis by simp
  qed
qed

lemma next_rowid_fresh: "next_rowid ids \<notin> set ids"
proof (cases ids)
  case Nil
  then show ?thesis by simp
next
  case (Cons i js)
  show ?thesis
  proof
    assume "next_rowid ids \<in> set ids"
    with Cons have "fold max js i + 1 = i \<or> fold max js i + 1 \<in> set js"
      by (simp add: next_rowid_def)
    with fold_max_ge [of i js] fold_max_upper [of "fold max js i + 1" js i] show False
      by auto
  qed
qed

lemma insert_content_success:
  "insert_content rows data = Inr (i, rows') \<Longrightarrow>
     rows' = rows @ [mk_row i data] \<and> i \<notin> set (row_ids rows)"
  using next_rowid_fresh [of "row_ids rows"]
  by (auto simp add: insert_content_def split: option.splits val.splits if_splits sum.splits)

lemma keys_mk_row: "map fst (mk_row i data) = COLS"
  by (simp add: mk_row_def comp_def)


lemma priv_add_file_success:
  assumes "priv_add_file e s path data = (Inr i, s1)"
  shows "\<exists>n. getsize e path = Inr n \<and>
           content s1 = content s @ [mk_row i (process_content_data (stamped e s n data))] \<and>
           i \<notin> set (row_ids (content s)) \<and> history s1 = history s \<and> ticks s1 = Suc (ticks s)"
  using assms
  unfolding priv_add_file_def time_time_def add_content_def Let_def stamped_def
  by (auto split: sum.splits prod.splits dest!: insert_content_success)


lemma wf_mk_row: "wf_row (mk_row i data)"
  by (simp add: wf_row_def keys_mk_row row_id_def) (simp add: mk_row_def COLS_def)


lemma wf_row_row_id: "wf_row row \<Longrightarrow> has_id i row \<Longrightarrow> row_id row = Some i"
  by (frule wf_row_id) (auto simp add: has_id_def col_def row_id_def)

lemma wf_rows_has_id:
  assumes "list_all wf_row rows" "row \<in> set rows" "has_id i row"
  shows "i \<in> set (row_ids rows)"
proof -
  from assms have "row_id row = Some i" by (auto simp add: list_all_iff wf_row_row_id)
  with assms(2) show ?thesis
    by (force simp add: row_ids_def map_filter_def image_iff)
qed


lemma row_ids_append: "row_ids (rows @ rows') = row_ids rows @ row_ids rows'"
  by (simp add: row_ids_def map_filter_def)

lemma row_ids_mk_row: "row_ids [mk_row i data] = [i]"
  by (simp add: row_ids_def map_filter_simps row_id_def) (simp add: mk_row_def COLS_def)

lemma record_action_state:
  "content (record_action e s i name act ps) = content s"
  "history (record_action e s i name act ps) =
     history s @ [\<lparr>file_id = i, client_name = name, action = act, action_params = ps,
                   timestamp = VFloat (clock e (ticks s))\<rparr>]"
  "ticks (record_action e s i name act ps) = Suc (ticks s)"
  by (simp_all add: record_action_def time_time_def)




section \<open>Updating\<close>

lemma keys_update_set: "fst ` set (AList.update k v al) = insert k (fst ` set al)"
  using update_keys [of k v al] by (auto simp flip: set_map)

lemma has_trigger_update_id: "has_trigger (AList.update ''id'' v data) = has_trigger data"
  by (simp add: has_trigger_def MODIFY_TRIGGERS_def update_conv')

lemma has_trigger_path: "map_of data ''path'' \<noteq> None \<Longrightarrow> has_trigger data"
  by (simp add: has_trigger_def MODIFY_TRIGGERS_def)

lemma has_trigger_update_size:
  "map_of data ''path'' \<noteq> None \<Longrightarrow> has_trigger (AList.update ''size'' v data)"
  by (simp add: has_trigger_def MODIFY_TRIGGERS_def update_conv')

lemma update_content_success:
  "map_of data ''id'' = Some (VInt i) \<Longrightarrow>
     update_content s data =
       (Inr (), s\<lparr>content := map (\<lambda>row. if has_id i row
                                 then set_cols row (process_content_data data) else row)
                            (content s)\<rparr>)"
  by (simp add: update_content_def Let_def process_content_data_def map_of_strip_extra
      COLS_def has_id_def)

lemma priv_update_file_success:
  assumes "priv_update_file e s i params = (Inr params', s1)"
  shows "set (map fst params) \<subseteq> set (map fst params')"
    and "set (map fst params') \<subseteq> set (map fst params) \<union> {''id'', ''size'', ''modified''}"
    and "map_of params' ''modified'' =
           (if has_trigger params then Some (VFloat (clock e (ticks s)))
            else map_of params ''modified'')"
    and "map_of params' ''id'' = Some (VInt i)"
    and "content s1 = map (\<lambda>row. if has_id i row
                            then set_cols row (process_content_data params') else row)
                       (content s)"
    and "history s1 = history s"
proof -
  let ?d1 = "AList.update ''id'' (VInt i) params"
  from assms obtain data2 where
    d2: "(case map_of ?d1 ''path'' of
            None \<Rightarrow> Inr ?d1
          | Some path \<Rightarrow> map_sum id (\<lambda>n. AList.update ''size'' (VInt (int n)) ?d1)
                           (getsize e path)) = Inr data2"
    by (auto simp add: priv_update_file_def Let_def split: sum.splits)
  then have shape: "data2 = ?d1 \<and> map_of params ''path'' = None \<or>
      (\<exists>n. data2 = AList.update ''size'' (VInt (int n)) ?d1 \<and> map_of params ''path'' \<noteq> None)"
    by (auto simp add: update_conv' split: option.splits)
  then have trig: "has_trigger data2 = has_trigger params"
    by (auto simp add: has_trigger_update_id has_trigger_update_size has_trigger_path
        update_conv')
  let ?d3 = "if has_trigger params
             then AList.update ''modified'' (VFloat (clock e (ticks s))) data2 else data2"
  let ?s2 = "if has_trigger params then s\<lparr>ticks := Suc (ticks s)\<rparr> else s"
  have id3: "map_of ?d3 ''id'' = Some (VInt i)"
    using shape by (auto simp add: update_conv')
  from assms d2 trig have res: "update_content ?s2 ?d3 = (Inr (), s1)" "params' = ?d3"
    by (auto simp add: priv_update_file_def Let_def time_time_def
        split: sum.splits prod.splits if_splits)
  from shape have keys2: "fst ` set data2 = insert ''id'' (fst ` set params) \<or>
      fst ` set data2 = insert ''size'' (insert ''id'' (fst ` set params))"
    by (elim disjE exE conjE) (simp_all add: keys_update_set)
  then have keys3: "fst ` set params \<subseteq> fst ` set ?d3 \<and>
      fst ` set ?d3 \<subseteq> fst ` set params \<union> {''id'', ''size'', ''modified''}"
    by (cases "has_trigger params"; simp add: keys_update_set; blast)
  from keys3 show "set (map fst params) \<subseteq> set (map fst params')"
    unfolding res(2) set_map by blast
  from keys3 show "set (map fst params') \<subseteq> set (map fst params) \<union> {''id'', ''size'', ''modified''}"
    unfolding res(2) set_map by blast
  from shape show "map_of params' ''modified'' =
           (if has_trigger params then Some (VFloat (clock e (ticks s)))
            else map_of params ''modified'')"
    unfolding res(2) by (auto simp add: update_conv')
  from id3 show "map_of params' ''id'' = Some (VInt i)" unfolding res(2) .
  from res(1) update_content_success [OF id3, of ?s2]
  have s1: "s1 = ?s2\<lparr>content := map (\<lambda>row. if has_id i row
                       then set_cols row (process_content_data ?d3) else row) (content ?s2)\<rparr>"
    by simp
  show "content s1 = map (\<lambda>row. if has_id i row
                            then set_cols row (process_content_data params') else row)
                       (content s)"
    unfolding res(2) by (subst s1) simp
  show "history s1 = history s" by (subst s1) simp
qed

lemma update_file_success_steps:
  assumes "update_file e s client i params = (Inr r, s')"
  shows "\<exists>params' s1 name.
           list_ex (\<lambda>row. has_id i row \<and> is_alive row) (content s) \<and>
           priv_update_file e s i params = (Inr params', s1) \<and>
           map_of client ''name'' = Some name \<and>
           s' = record_action e s1 i name ''update'' (join_comma (map fst params'))"
  using assms unfolding update_file_def Let_def exists_id
  by (auto split: option.splits sum.splits bool.splits prod.splits)

text \<open>
  Claim C4, amended. After a successful \<open>update_file\<close> on a well-formed state: when
  \<^verbatim>\<open>params\<close> has no key of \<open>MODIFY_TRIGGERS\<close> and no key \<^verbatim>\<open>modified\<close>, the \<^verbatim>\<open>modified\<close> column
  of every row is unchanged; when it has a key of \<open>MODIFY_TRIGGERS\<close>, the entry is there
  and its \<^verbatim>\<open>modified\<close> is the clock reading of the call. In both cases one audit record
  with action \<^verbatim>\<open>update\<close> is appended; its \<^verbatim>\<open>action_params\<close> is the comma-joined list of the
  keys of \<^verbatim>\<open>params\<close> as \<open>_update_file\<close> leaves them: every key supplied, and besides them
  at most \<^verbatim>\<open>id\<close>, \<^verbatim>\<open>size\<close> and \<^verbatim>\<open>modified\<close>.
\<close>

theorem update_file_modified_and_audit:
  assumes "wf_state s" and "update_file e s client i params = (Inr r, s')"
  shows "(\<not> has_trigger params \<and> map_of params ''modified'' = None \<longrightarrow>
            map (\<lambda>row. col row ''modified'') (content s') =
            map (\<lambda>row. col row ''modified'') (content s)) \<and>
         (has_trigger params \<longrightarrow>
            list_ex (has_id i) (content s') \<and>
            list_all (\<lambda>row. has_id i row \<longrightarrow>
                        col row ''modified'' = VFloat (clock e (ticks s))) (content s')) \<and>
         (\<exists>ks name ts.
            history s' = history s @
              [\<lparr>file_id = i, client_name = name, action = ''update'',
                action_params = join_comma ks, timestamp = ts\<rparr>] \<and>
            set (map fst params) \<subseteq> set ks \<and>
            set ks \<subseteq> set (map fst params) \<union> {''id'', ''size'', ''modified''})"
proof -
  from update_file_success_steps [OF assms(2)] obtain params' s1 name where
    steps: "list_ex (\<lambda>row. has_id i row \<and> is_alive row) (content s)"
      "priv_update_file e s i params = (Inr params', s1)"
      "map_of client ''name'' = Some name"
      "s' = record_action e s1 i name ''update'' (join_comma (map fst params'))"
    by blast
  note upd = priv_update_file_success [OF steps(2)]
  let ?data = "process_content_data params'"
  let ?upd = "\<lambda>row. if has_id i row then set_cols row ?data else row"
  have c: "content s' = map ?upd (content s)"
    by (simp add: steps(4) record_action_state upd(5))
  from assms(1) have wf: "\<And>row. row \<in> set (content s) \<Longrightarrow> wf_row row"
    by (simp add: wf_state_def list_all_iff)
  have data_modified: "map_of ?data ''modified'' = map_of params' ''modified''"
    by (simp add: process_content_data_def map_of_strip_extra COLS_def)
  have data_id: "map_of ?data ''id'' = Some (VInt i)"
    by (simp add: process_content_data_def map_of_strip_extra COLS_def upd(4))
  have unchanged: "\<not> has_trigger params \<and> map_of params ''modified'' = None \<longrightarrow>
            map (\<lambda>row. col row ''modified'') (content s') =
            map (\<lambda>row. col row ''modified'') (content s)"
    unfolding c
    by (auto simp add: col_def map_of_set_cols data_modified upd(3) split: option.splits)
  have bumped: "has_trigger params \<longrightarrow>
            list_ex (has_id i) (content s') \<and>
            list_all (\<lambda>row. has_id i row \<longrightarrow>
                        col row ''modified'' = VFloat (clock e (ticks s))) (content s')"
  proof
    assume trig: "has_trigger params"
    have new: "\<And>row. row \<in> set (content s) \<Longrightarrow> has_id i row \<Longrightarrow>
        has_id i (set_cols row ?data) \<and>
        col (set_cols row ?data) ''modified'' = VFloat (clock e (ticks s))"
    proof -
      fix row assume row: "row \<in> set (content s)" "has_id i row"
      from wf_row_keys [OF wf [OF row(1)], of "''modified''"]
        wf_row_keys [OF wf [OF row(1)], of "''id''"]
      have "map_of row ''modified'' \<noteq> None" "map_of row ''id'' \<noteq> None"
        by (simp_all add: COLS_def)
      then show "has_id i (set_cols row ?data) \<and>
        col (set_cols row ?data) ''modified'' = VFloat (clock e (ticks s))"
        using trig by (auto simp add: has_id_def col_set_cols data_modified data_id upd(3))
    qed
    from steps(1) obtain row where row: "row \<in> set (content s)" "has_id i row"
      by (auto simp add: list_ex_iff)
    then have "set_cols row ?data \<in> set (content s')" unfolding c by force
    with new [OF row] have ex: "list_ex (has_id i) (content s')"
      by (auto simp add: list_ex_iff)
    have "list_all (\<lambda>row. has_id i row \<longrightarrow>
                        col row ''modified'' = VFloat (clock e (ticks s))) (content s')"
      unfolding c using new by (auto simp add: list_all_iff)
    with ex show "list_ex (has_id i) (content s') \<and>
            list_all (\<lambda>row. has_id i row \<longrightarrow>
                        col row ''modified'' = VFloat (clock e (ticks s))) (content s')"
      by simp
  qed
  have "history s' = history s @
              [\<lparr>file_id = i, client_name = name, action = ''update'',
                action_params = join_comma (map fst params'),
                timestamp = VFloat (clock e (ticks s1))\<rparr>]"
    by (simp add: steps(4) record_action_state upd(6))
  with upd(1,2) have audit: "\<exists>ks name ts.
            history s' = history s @
              [\<lparr>file_id = i, client_name = name, action = ''update'',
                action_params = join_comma ks, timestamp = ts\<rparr>] \<and>
            set (map fst params) \<subseteq> set ks \<and>
            set ks \<subseteq> set (map fst params) \<union> {''id'', ''size'', ''modified''}"
    by blast
  from unchanged bumped audit show ?thesis by blast
qed

text \<open>The entry of \<open>state_added\<close> gets a category.\<close>

theorem update_file_modified_and_audit_witness:
  "wf_state state_added \<and>
   (\<exists>r. update_file env0 state_added client0 1 [(''category'', VStr ''news'')] =
          (Inr r, state_updated)) \<and>
   list_ex (has_id 1) (content state_updated) \<and>
   list_all (\<lambda>row. has_id 1 row \<longrightarrow>
               col row ''modified'' = VFloat (clock env0 (ticks state_added)))
     (content state_updated) \<and>
   (\<exists>ks name ts.
      history state_updated = history state_added @
        [\<lparr>file_id = 1, client_name = name, action = ''update'',
          action_params = join_comma ks, timestamp = ts\<rparr>] \<and>
      ''category'' \<in> set ks)"
proof -
  have wf: "wf_state state_added" by code_simp
  have trig: "has_trigger [(''category'', VStr ''news'')]" by code_simp
  have "\<not> isl (fst (update_file env0 state_added client0 1 [(''category'', VStr ''news'')]))"
    by code_simp
  then obtain r where
    "fst (update_file env0 state_added client0 1 [(''category'', VStr ''news'')]) = Inr r"
    by (cases "fst (update_file env0 state_added client0 1 [(''category'', VStr ''news'')])")
      auto
  then have upd: "update_file env0 state_added client0 1 [(''category'', VStr ''news'')] =
      (Inr r, state_updated)"
    by (simp add: state_updated_def prod_eq_iff)
  from update_file_modified_and_audit [OF wf upd] trig wf upd show ?thesis
    by fastforce
qed

text \<open>
  The claim as written fails twice. \<^verbatim>\<open>modified\<close> is not a trigger, and an update that
  supplies it changes the entry's \<^verbatim>\<open>modified\<close> from 1000 to 7. An update of the category
  alone records the \<^verbatim>\<open>action_params\<close> \<^verbatim>\<open>category, id, modified\<close>.
\<close>

theorem update_file_lists_more_than_the_changes:
  "\<not> has_trigger [(''modified'', VInt 7)] \<and>
   \<not> isl (fst (update_file env0 state_added client0 1 [(''modified'', VInt 7)])) \<and>
   map (\<lambda>row. col row ''modified'') (content state_added) = [VFloat 1000] \<and>
   map (\<lambda>row. col row ''modified'') (content state_backdated) = [VInt 7] \<and>
   \<not> isl (fst (update_file env0 state_added client0 1 [(''category'', VStr ''news'')])) \<and>
   map action_params (history state_updated) = [[], ''category, id, modified'']"
  by code_simp

section \<open>Listing\<close>

lemma map_of_dict_update:
  "distinct (map fst other) \<Longrightarrow>
     map_of (dict_update d other) k =
       (case map_of other k of Some v \<Rightarrow> Some v | None \<Rightarrow> map_of d k)"
proof (induction other arbitrary: d)
  case Nil
  then show ?case by (simp add: dict_update_def)
next
  case (Cons kv other)
  from Cons.prems have fresh: "map_of other (fst kv) = None"
    by (simp add: map_of_eq_None_iff)
  from Cons.prems have "distinct (map fst other)" by simp
  from Cons.IH [OF this, of "AList.update (fst kv) (snd kv) d"]
  have "map_of (dict_update d (kv # other)) k =
          (case map_of other k of
             Some v \<Rightarrow> Some v
           | None \<Rightarrow> map_of (AList.update (fst kv) (snd kv) d) k)"
    by (simp add: dict_update_def)
  with fresh show ?case
    by (cases kv) (auto simp add: update_conv' split: option.splits)
qed

















section \<open>The duplicate check\<close>

text \<open>
  \<open>add_file\<close> checks for a duplicate with \<open>exists\<close> on the \<^verbatim>\<open>serve_path\<close> filter, which the
  backend evaluates as a pattern: the call raises "already exists" exactly when the new
  serve path, read as a regular expression, matches somewhere in the serve path of an
  alive row.
\<close>

lemma get_content_serve_path_alive:
  "get_content e rows [(''serve_path'', sp), (''alive'', VBool True), (''count'', VInt 1)] =
     Inr (take 1 (filter (\<lambda>row. serve_path_matches e sp row \<and> is_alive row) rows))"
proof -
  have "row_selected e [(''serve_path'', sp), (''alive'', VBool True), (''count'', VInt 1)] =
          (\<lambda>row. serve_path_matches e sp row \<and> is_alive row)"
    by (simp add: fun_eq_iff row_selected_def filter_holds_def serve_path_matches_def
        is_alive_def)
  then show ?thesis
    by (simp add: get_content_def VALID_FILTERS_def apply_limit_def)
qed

lemma exists_serve_path:
  "exists e s [(''serve_path'', sp)] =
     Inr (list_ex (\<lambda>row. serve_path_matches e sp row \<and> is_alive row) (content s))"
proof (cases "filter (\<lambda>row. serve_path_matches e sp row \<and> is_alive row) (content s)")
  case Nil
  then have "\<not> list_ex (\<lambda>row. serve_path_matches e sp row \<and> is_alive row) (content s)"
    by (simp add: list_ex_iff filter_empty_conv)
  with Nil show ?thesis
    by (simp add: exists_def get_file_def validate_filters_def VALID_FILTERS_def
        get_content_serve_path_alive)
next
  case (Cons r rs)
  then have "r \<in> set (filter (\<lambda>row. serve_path_matches e sp row \<and> is_alive row) (content s))"
    by simp
  then have r: "r \<in> set (content s)" "serve_path_matches e sp r" "is_alive r" by auto
  then have ex: "list_ex (\<lambda>row. serve_path_matches e sp row \<and> is_alive row) (content s)"
    by (auto simp add: list_ex_iff)
  from process_entry_alive [OF r(3)] obtain d where "process_entry r = Inr d" "d \<noteq> []"
    by blast
  with Cons ex show ?thesis
    by (simp add: exists_def get_file_def validate_filters_def VALID_FILTERS_def
        get_content_serve_path_alive)
qed

lemma validate_path_not_duplicate:
  "validate_path e p \<noteq> Inl (ContentException (AlreadyExists v))"
  by (simp add: validate_path_def split: val.splits)

lemma validate_params_not_duplicate:
  "validate_params e p \<noteq> Inl (ContentException (AlreadyExists v))"
  by (simp add: validate_params_def validate_path_not_duplicate split: option.splits)

lemma insert_content_error: "insert_content rows data = Inl err \<Longrightarrow> err = DatabaseError"
  by (auto simp add: insert_content_def split: option.splits val.splits if_splits sum.splits)

lemma priv_add_file_error:
  "priv_add_file e s path data = (Inl err, s1) \<Longrightarrow>
     err = OSError \<or> err = TypeError \<or> err = DatabaseError"
  unfolding priv_add_file_def Let_def time_time_def add_content_def
  by (auto split: sum.splits prod.splits dest: getsize_error insert_content_error)

lemma get_file_not_duplicate: "get_file e s k \<noteq> Inl (ContentException (AlreadyExists v))"
  using get_file_error [of e s k "ContentException (AlreadyExists v)"] by auto

lemma add_file_duplicate_iff_match:
  assumes "map_of params ''serve_path'' = Some sp"
  shows "fst (add_file e s client path params) = Inl (ContentException (AlreadyExists v)) \<longleftrightarrow>
           v = sp \<and> list_ex (\<lambda>row. serve_path_matches e sp row \<and> is_alive row) (content s)"
  unfolding add_file_def exists_serve_path using assms
  by (auto simp add: validate_params_not_duplicate get_file_not_duplicate Let_def
      split: sum.splits prod.splits option.splits bool.splits dest: priv_add_file_error)

text \<open>
  Claim C1, evaluated where it fails. With one alive entry served at \<^verbatim>\<open>/videos/abc\<close>, no
  alive entry has the serve path \<^verbatim>\<open>/videos/a\<close>, and adding at \<^verbatim>\<open>/videos/a\<close> raises "already
  exists" and leaves the state as it was. With one alive entry served at \<^verbatim>\<open>/videos/a+b\<close>,
  adding at \<^verbatim>\<open>/videos/a+b\<close> again succeeds, and two alive rows then share the serve path.
\<close>

theorem add_file_duplicate_by_pattern:
  "\<not> list_ex (\<lambda>row. is_alive row \<and> col row ''serve_path'' = VStr ''/videos/a'')
        (content state_abc) \<and>
   add_file env0 state_abc client0 (VStr ''/srv/a.mp4'') [(''serve_path'', VStr ''/videos/a'')] =
     (Inl (ContentException (AlreadyExists (VStr ''/videos/a''))), state_abc) \<and>
   list_ex (\<lambda>row. is_alive row \<and> col row ''serve_path'' = VStr ''/videos/a+b'')
     (content state_plus) \<and>
   \<not> isl (fst (add_file env0 state_plus client0 (VStr ''/srv/a.mp4'')
                 [(''serve_path'', VStr ''/videos/a+b'')])) \<and>
   map (\<lambda>row. (col row ''serve_path'', col row ''alive''))
     (content (snd (add_file env0 state_plus client0 (VStr ''/srv/a.mp4'')
                      [(''serve_path'', VStr ''/videos/a+b'')]))) =
     [(VStr ''/videos/a+b'', VInt 1), (VStr ''/videos/a+b'', VInt 1)]"
  by code_simp

section \<open>Well-formedness is an invariant\<close>

text \<open>
  The empty registry is well-formed, and \<open>add_file\<close>, \<open>update_file\<close> and \<open>delete_file\<close>
  leave a well-formed state well-formed, whatever they return.
\<close>

lemma wf_state_ticks: "wf_state (s\<lparr>ticks := n\<rparr>) = wf_state s"
  by (simp add: wf_state_def)

lemma wf_record_action:
  "wf_state s \<Longrightarrow> i \<in> set (row_ids (content s)) \<Longrightarrow>
     wf_state (record_action e s i name act ps)"
  by (simp add: wf_state_def record_action_state)

lemma wf_row_set_cols:
  assumes "wf_row row" "has_id i row" "map_of data ''id'' = Some (VInt i)"
  shows "wf_row (set_cols row data)" "row_id (set_cols row data) = row_id row"
proof -
  from wf_row_id [OF assms(1)] obtain n where n: "map_of row ''id'' = Some (VInt n)" by blast
  with assms(2) have "n = i" by (simp add: has_id_def col_def)
  with n assms(3) have "row_id (set_cols row data) = Some i" "row_id row = Some i"
    by (simp_all add: row_id_def map_of_set_cols)
  then show "row_id (set_cols row data) = row_id row" by simp
  with assms(1) show "wf_row (set_cols row data)"
    by (simp add: wf_row_def keys_set_cols)
qed

lemma wf_update_rows:
  assumes "list_all wf_row rows" "map_of data ''id'' = Some (VInt i)"
  shows "list_all wf_row (map (\<lambda>row. if has_id i row then set_cols row data else row) rows)"
    and "row_ids (map (\<lambda>row. if has_id i row then set_cols row data else row) rows) =
           row_ids rows"
  using assms(1)
  by (induction rows)
    (auto simp add: row_ids_def wf_row_set_cols [OF _ _ assms(2)] split: option.splits)

lemma wf_update_content:
  assumes "wf_state s" "map_of data ''id'' = Some (VInt i)"
  shows "wf_state (snd (update_content s data))"
proof -
  from assms(1) have wf: "list_all wf_row (content s)" by (simp add: wf_state_def)
  have id: "map_of (process_content_data data) ''id'' = Some (VInt i)"
    by (simp add: process_content_data_def map_of_strip_extra COLS_def assms(2))
  from wf_update_rows [OF wf id] assms(1) show ?thesis
    by (simp add: update_content_success [OF assms(2)] wf_state_def)
qed

lemma wf_priv_update_file:
  assumes "wf_state s"
  shows "wf_state (snd (priv_update_file e s i params))"
proof (cases "priv_update_file e s i params")
  case (Pair res s1)
  show ?thesis
  proof (cases res)
    case (Inl err)
    with Pair have "s1 = s \<or> s1 = s\<lparr>ticks := Suc (ticks s)\<rparr>"
      unfolding priv_update_file_def Let_def time_time_def
      by (auto simp add: update_content_def Let_def
          split: option.splits sum.splits prod.splits if_splits)
    with assms Pair show ?thesis by (auto simp add: wf_state_ticks)
  next
    case (Inr params')
    with Pair have ok: "priv_update_file e s i params = (Inr params', s1)" by simp
    note upd = priv_update_file_success [OF ok]
    from assms have wf: "list_all wf_row (content s)" by (simp add: wf_state_def)
    have id: "map_of (process_content_data params') ''id'' = Some (VInt i)"
      by (simp add: process_content_data_def map_of_strip_extra COLS_def upd(4))
    from wf_update_rows [OF wf id] assms upd(5,6) Pair show ?thesis
      by (simp add: wf_state_def)
  qed
qed

lemma wf_priv_delete_file:
  assumes "wf_state s"
  shows "wf_state (snd (priv_delete_file e s i))"
  unfolding priv_delete_file_def time_time_def
  using wf_update_content [of "s\<lparr>ticks := Suc (ticks s)\<rparr>"
      "[(''id'', VInt i), (''alive'', VBool False), (''modified'', VFloat (clock e (ticks s)))]" i]
    assms
  by (simp add: wf_state_ticks)

lemma wf_priv_add_file:
  assumes "wf_state s"
  shows "wf_state (snd (priv_add_file e s path data))"
proof (cases "priv_add_file e s path data")
  case (Pair res s1)
  show ?thesis
  proof (cases res)
    case (Inl err)
    with Pair have "s1 = s\<lparr>ticks := Suc (ticks s)\<rparr>"
      unfolding priv_add_file_def Let_def time_time_def add_content_def
      by (auto split: sum.splits prod.splits)
    with assms Pair show ?thesis by (simp add: wf_state_ticks)
  next
    case (Inr i)
    with Pair have ok: "priv_add_file e s path data = (Inr i, s1)" by simp
    from priv_add_file_success [OF ok] obtain n where
      added: "content s1 = content s @ [mk_row i (process_content_data (stamped e s n data))]"
        "i \<notin> set (row_ids (content s))" "history s1 = history s"
      by blast
    with assms Pair show ?thesis
      by (auto simp add: wf_state_def row_ids_append row_ids_mk_row wf_mk_row list_all_iff)
  qed
qed

lemma exists_id_row_ids:
  assumes "wf_state s" "list_ex (\<lambda>row. has_id i row \<and> is_alive row) (content s)"
  shows "i \<in> set (row_ids (content s))"
proof -
  from assms(2) obtain row where "row \<in> set (content s)" "has_id i row"
    by (auto simp add: list_ex_iff)
  with assms(1) show ?thesis by (auto simp add: wf_state_def intro: wf_rows_has_id)
qed

lemma row_ids_priv_update_file:
  assumes "wf_state s"
  shows "row_ids (content (snd (priv_update_file e s i params))) = row_ids (content s)"
proof (cases "priv_update_file e s i params")
  case (Pair res s1)
  show ?thesis
  proof (cases res)
    case (Inl err)
    with Pair have "s1 = s \<or> s1 = s\<lparr>ticks := Suc (ticks s)\<rparr>"
      unfolding priv_update_file_def Let_def time_time_def
      by (auto simp add: update_content_def Let_def
          split: option.splits sum.splits prod.splits if_splits)
    with Pair show ?thesis by auto
  next
    case (Inr params')
    with Pair have ok: "priv_update_file e s i params = (Inr params', s1)" by simp
    note upd = priv_update_file_success [OF ok]
    from assms have wf: "list_all wf_row (content s)" by (simp add: wf_state_def)
    have id: "map_of (process_content_data params') ''id'' = Some (VInt i)"
      by (simp add: process_content_data_def map_of_strip_extra COLS_def upd(4))
    from wf_update_rows(2) [OF wf id] upd(5) Pair show ?thesis by simp
  qed
qed

lemma row_ids_priv_delete_file:
  assumes "wf_state s"
  shows "row_ids (content (snd (priv_delete_file e s i))) = row_ids (content s)"
proof -
  let ?d = "[(''id'', VInt i), (''alive'', VBool False), (''modified'', VFloat (clock e (ticks s)))]"
  from assms have wf: "list_all wf_row (content s)" by (simp add: wf_state_def)
  have id: "map_of (process_content_data ?d) ''id'' = Some (VInt i)"
    by (simp add: process_content_data_def map_of_strip_extra COLS_def)
  from wf_update_rows(2) [OF wf id] show ?thesis
    by (simp add: priv_delete_file_def time_time_def update_content_success [of ?d i])
qed

lemma update_file_preserves_wf:
  assumes "wf_state s"
  shows "wf_state (snd (update_file e s client i params))"
proof -
  have rec: "wf_state (record_action e (snd (priv_update_file e s i params)) i name act ps)"
    if "list_ex (\<lambda>row. has_id i row \<and> is_alive row) (content s)" for name act ps
    using wf_priv_update_file [OF assms, of e i params] exists_id_row_ids [OF assms that]
    by (simp add: wf_record_action row_ids_priv_update_file [OF assms])
  show ?thesis
    unfolding update_file_def exists_id Let_def
    using assms wf_priv_update_file [OF assms, of e i params] rec
    by (auto split: sum.splits option.splits prod.splits bool.splits)
qed

lemma delete_file_preserves_wf:
  assumes "wf_state s"
  shows "wf_state (snd (delete_file e s client i))"
proof -
  have rec: "wf_state (record_action e (snd (priv_delete_file e s i)) i name act ps)"
    if "list_ex (\<lambda>row. has_id i row \<and> is_alive row) (content s)" for name act ps
    using wf_priv_delete_file [OF assms, of e i] exists_id_row_ids [OF assms that]
    by (simp add: wf_record_action row_ids_priv_delete_file [OF assms])
  show ?thesis
    unfolding delete_file_def exists_id Let_def
    using assms wf_priv_delete_file [OF assms, of e i] rec
    by (auto split: sum.splits option.splits prod.splits bool.splits)
qed

lemma add_file_preserves_wf:
  assumes "wf_state s"
  shows "wf_state (snd (add_file e s client path params))"
proof -
  have rec: "wf_state (record_action e s1 i name act ps)"
    if ok: "priv_add_file e s path params = (Inr i, s1)" for s1 i name act ps
  proof -
    from priv_add_file_success [OF ok] have "i \<in> set (row_ids (content s1))"
      by (auto simp add: row_ids_append row_ids_mk_row)
    moreover from wf_priv_add_file [OF assms, of e path params] ok have "wf_state s1" by simp
    ultimately show ?thesis by (simp add: wf_record_action)
  qed
  show ?thesis
    unfolding add_file_def Let_def
    using assms wf_priv_add_file [OF assms, of e path params] rec
    by (auto split: sum.splits option.splits prod.splits bool.splits)
qed

lemma wf_empty_state: "wf_state empty_state"
  by (simp add: wf_state_def empty_state_def row_ids_def)

section \<open>The serve path of a list filter\<close>

lemma validate_list_filters_invalid:
  "map_of filters ''serve_path'' = Some (VStr p) \<Longrightarrow> re_compile e p = None \<Longrightarrow>
     validate_list_filters e filters = Inl (ValueError (VStr p))"
  by (auto simp add: validate_list_filters_def Let_def update_conv' delete_conv'
      split: option.splits)

lemma validate_list_filters_valid:
  "map_of filters ''serve_path'' = Some (VStr p) \<Longrightarrow> re_compile e p \<noteq> None \<Longrightarrow>
     \<exists>f. validate_list_filters e filters = Inr f"
  by (auto simp add: validate_list_filters_def Let_def update_conv' delete_conv'
      split: option.splits)

lemma api_list_files_invalid:
  assumes "distinct (map fst params)" "map_of params ''serve_path'' = Some (VStr p)"
    "re_compile e p = None"
  shows "api_list_files e s params = Failed (ValueError (VStr p))"
proof -
  let ?valid = "fst (split_valid_filters params)"
  have v: "?valid = strip_extra params VALID_FILTERS"
    by (simp add: split_valid_filters_def strip_extra_def)
  have d: "distinct (map fst ?valid)"
    unfolding v strip_extra_def using assms(1) by (simp add: distinct_map_filter)
  have "map_of ?valid ''serve_path'' = Some (VStr p)"
    unfolding v by (simp add: map_of_strip_extra assms(2) VALID_FILTERS_def)
  then have "map_of (dict_update default_filters ?valid) ''serve_path'' = Some (VStr p)"
    by (simp add: map_of_dict_update [OF d])
  from validate_list_filters_invalid [OF this assms(3)] show ?thesis
    by (simp add: api_list_files_def list_files_def)
qed

text \<open>
  Claim C7, amended. For a filter mapping whose \<^verbatim>\<open>serve_path\<close> is a string:
  \<open>validate_list_filters\<close> fails when the string is not a valid regular expression, and
  the failure is Python's built-in \<^verbatim>\<open>ValueError\<close>, not the manager's \<open>ContentException\<close>;
  the handler of the list route catches both and answers a \<^verbatim>\<open>ValueError\<close> with its
  message, not with "Unknown Error". When the string is a valid regular expression,
  \<open>validate_list_filters\<close> does not fail.
\<close>

theorem validate_list_filters_serve_path:
  assumes "map_of filters ''serve_path'' = Some (VStr p)"
  shows "(re_compile e p = None \<longrightarrow>
            validate_list_filters e filters = Inl (ValueError (VStr p)) \<and>
            (\<forall>m. validate_list_filters e filters \<noteq> Inl (ContentException m)) \<and>
            (distinct (map fst filters) \<longrightarrow>
               api_list_files e s filters = Failed (ValueError (VStr p)))) \<and>
         (re_compile e p \<noteq> None \<longrightarrow> (\<exists>f. validate_list_filters e filters = Inr f))"
  using validate_list_filters_invalid [OF assms, of e]
    validate_list_filters_valid [OF assms, of e]
    api_list_files_invalid [OF _ assms, of e s]
  by auto

text \<open>The pattern \<^verbatim>\<open>*a\<close> has nothing to repeat; \<^verbatim>\<open>/videos/a\<close> compiles.\<close>

theorem validate_list_filters_serve_path_witness:
  "validate_list_filters env0 [(''serve_path'', VStr ''*a'')] = Inl (ValueError (VStr ''*a'')) \<and>
   api_list_files env0 state_added [(''serve_path'', VStr ''*a'')] =
     Failed (ValueError (VStr ''*a'')) \<and>
   (\<exists>f. validate_list_filters env0 [(''serve_path'', VStr ''/videos/a'')] = Inr f)"
proof -
  have bad: "re_compile env0 ''*a'' = None" by code_simp
  have ok: "re_compile env0 ''/videos/a'' \<noteq> None" by code_simp
  have d: "distinct (map fst [(''serve_path'', VStr ''*a'')])" by simp
  from bad ok d
    validate_list_filters_serve_path [of "[(''serve_path'', VStr ''*a'')]" "''*a''" env0
      state_added]
    validate_list_filters_serve_path
      [of "[(''serve_path'', VStr ''/videos/a'')]" "''/videos/a''" env0 state_added]
  show ?thesis by simp
qed

text \<open>
  The claim as written fails: the error raised for the pattern \<^verbatim>\<open>*a\<close> is not a
  \<open>ContentException\<close>.
\<close>

theorem invalid_regex_is_not_content_exception:
  "re_compile env0 ''*a'' = None \<and>
   validate_list_filters env0 [(''serve_path'', VStr ''*a'')] = Inl (ValueError (VStr ''*a'')) \<and>
   (\<forall>m. validate_list_filters env0 [(''serve_path'', VStr ''*a'')] \<noteq> Inl (ContentException m))"
  by (simp add: validate_list_filters_def env0_def re_lite_def quantifier_def)

end
